theory Spec2Isabelle
  imports Main "HOL-Library.Word"
begin

section \<open>The sample program \<open>get_from_callbacks_api.cc\<close>\<close>

text \<open>
  The sample configures a stream request, registers three console callbacks, opens the
  camera and runs a display loop until a quit key arrives. Everything the program calls
  (the camera API, the image classes, OpenCV's windows and keyboard) lives outside the
  file. The embedding therefore takes the answers of those calls as inputs and returns,
  for one run of \<open>main\<close>, the sequence of calls and writes the program performs together
  with the way the run ended.
\<close>

subsection \<open>Data of the SDK that the program reads and writes\<close>

datatype Stream = IMAGE_LEFT_COLOR | IMAGE_RIGHT_COLOR | IMAGE_DEPTH

text \<open>The image formats the program converts to (lines 149, 161 and 173).\<close>

datatype ImageFormat = COLOR_BGR | DEPTH_BGR

text \<open>The modes named by the configuration block (lines 34 to 60).\<close>

datatype ColorMode = COLOR_RAW | COLOR_RECTIFIED

datatype DepthMode = DEPTH_COLORFUL | DEPTH_GRAY | DEPTH_RAW

datatype StreamMode = STREAM_640x480 | STREAM_1280x720 | STREAM_1280x480 | STREAM_2560x720

record stream_request =
  framerate :: int
  color_mode :: ColorMode
  depth_mode :: DepthMode
  stream_mode :: StreamMode
  state_ae :: bool
  state_awb :: bool

text \<open>
  The positions at which the painter draws its overlays.
\<close>

datatype Gravity = TOP_LEFT | TOP_RIGHT | BOTTOM_LEFT | BOTTOM_RIGHT

subsection \<open>The configuration block\<close>

text \<open>
  Lines 33 to 61: the request returned by \<open>SelectStreamRequest\<close> gets two assignments,
  \<open>framerate = 30\<close> and \<open>stream_mode = STREAM_2560x720\<close>; every other assignment of the
  block is commented out, so the other fields keep what the SDK selected.
\<close>

definition configure :: "stream_request \<Rightarrow> stream_request" where
  "configure request = request\<lparr>framerate := 30, stream_mode := STREAM_2560x720\<rparr>"

text \<open>
  The legal framerates as the comment of line 34 documents them:
  \<open>[0,60]\<close> in general, \<open>[0,30]\<close> for \<open>STREAM_2560x720\<close>.
\<close>

definition framerate_max :: "StreamMode \<Rightarrow> int" where
  "framerate_max m = (if m = STREAM_2560x720 then 30 else 60)"

definition framerate_legal :: "StreamMode \<Rightarrow> int \<Rightarrow> bool" where
  "framerate_legal m f = (0 \<le> f \<and> f \<le> framerate_max m)"

subsection \<open>The console callbacks\<close>

text \<open>
  What a callback does is a list of actions: taking and releasing the mutex
  (the \<open>lock_guard\<close> of lines 73, 88 and 97 releases it when the closure returns) and
  the items it sends to \<open>std::cout\<close>, one per \<open><<\<close>. Numbers are sent as values: how the
  stream prints an integer or a floating-point value is the library's business. The type
  \<open>'f\<close> stands for the floating-point type of the IMU fields.
\<close>

datatype 'f item = Str string | Num nat | Val 'f | Ty Stream | Endl | Flush

datatype 'f action = Lock | Unlock | Put "'f item"

record ImgInfo =
  frame_id :: nat
  timestamp :: nat
  exposure_time :: nat

record Image =
  img_type :: Stream
  img_frame_id :: nat

record 'f ImuData =
  flag :: int
  imu_timestamp :: nat
  accel :: "nat \<Rightarrow> 'f"
  gyro :: "nat \<Rightarrow> 'f"
  temperature :: 'f

text \<open>Lines 72 to 78.\<close>

definition img_info_callback :: "ImgInfo \<Rightarrow> 'f action list" where
  "img_info_callback info =
     Lock # map Put
       [Str ''  [img_info] fid: '', Num (frame_id info),
        Str '', stamp: '', Num (timestamp info),
        Str '', expos: '', Num (exposure_time info), Endl, Flush]
     @ [Unlock]"

text \<open>Lines 87 to 92; the same closure is registered for each of the three streams.\<close>

definition stream_callback :: "Image \<Rightarrow> 'f action list" where
  "stream_callback img =
     Lock # map Put
       [Str ''  ['', Ty (img_type img), Str ''] fid: '', Num (img_frame_id img), Endl, Flush]
     @ [Unlock]"

text \<open>
  Lines 96 to 114. The two macros \<open>MYNTEYE_IMU_ACCEL\<close> and \<open>MYNTEYE_IMU_GYRO\<close> are defined
  in the SDK's headers; the callback takes their values as its first two arguments.
\<close>

definition accel_line :: "'f ImuData \<Rightarrow> 'f item list" where
  "accel_line imu =
     [Str ''[accel] stamp: '', Num (imu_timestamp imu),
      Str '', x: '', Val (accel imu 0),
      Str '', y: '', Val (accel imu 1),
      Str '', z: '', Val (accel imu 2),
      Str '', temp: '', Val (temperature imu), Endl]"

definition gyro_line :: "'f ImuData \<Rightarrow> 'f item list" where
  "gyro_line imu =
     [Str ''[gyro] stamp: '', Num (imu_timestamp imu),
      Str '', x: '', Val (gyro imu 0),
      Str '', y: '', Val (gyro imu 1),
      Str '', z: '', Val (gyro imu 2),
      Str '', temp: '', Val (temperature imu), Endl]"

definition motion_callback :: "int \<Rightarrow> int \<Rightarrow> 'f ImuData \<Rightarrow> 'f action list" where
  "motion_callback MYNTEYE_IMU_ACCEL MYNTEYE_IMU_GYRO imu =
     Lock #
     (if flag imu = MYNTEYE_IMU_ACCEL then map Put (accel_line imu)
      else if flag imu = MYNTEYE_IMU_GYRO then map Put (gyro_line imu)
      else [])
     @ [Put Flush, Unlock]"

text \<open>The items a list of actions sends to the console, in order.\<close>

fun console :: "'f action list \<Rightarrow> 'f item list" where
  "console [] = []"
| "console (Put i # as) = i # console as"
| "console (a # as) = console as"

text \<open>
  A list of actions writes under the mutex when every \<open>Put\<close> comes after a \<open>Lock\<close> that
  no \<open>Unlock\<close> has released yet. The flag says whether the mutex is held.
\<close>

fun guarded :: "bool \<Rightarrow> 'f action list \<Rightarrow> bool" where
  "guarded held [] = True"
| "guarded held (Lock # as) = (\<not> held \<and> guarded True as)"
| "guarded held (Unlock # as) = (held \<and> guarded False as)"
| "guarded held (Put i # as) = (held \<and> guarded held as)"

subsection \<open>Callbacks invoked on several threads\<close>

text \<open>
  The SDK invokes the callbacks from threads of its own. The state of such a run is the
  thread that holds the one mutex of line 69 (if any), what each invocation has still to
  do, and what has reached the console so far.
\<close>

record 'f sys =
  holder :: "nat option"
  pending :: "'f action list list"
  printed :: "'f item list"

text \<open>
  One step of invocation \<open>i\<close>. Constructing the \<open>lock_guard\<close> takes the mutex and is
  possible only while no thread holds it (the thread waits otherwise); its destructor
  releases the mutex the thread holds; a write to \<open>std::cout\<close> appends to the console.
  \<open>None\<close> says that the invocation cannot move now.
\<close>

definition step :: "nat \<Rightarrow> 'f sys \<Rightarrow> 'f sys option" where
  "step i s =
     (if i < length (pending s) then
        (case pending s ! i of
           [] \<Rightarrow> None
         | Lock # rest \<Rightarrow>
             if holder s = None
             then Some (s\<lparr>holder := Some i, pending := (pending s)[i := rest]\<rparr>)
             else None
         | Unlock # rest \<Rightarrow>
             if holder s = Some i
             then Some (s\<lparr>holder := None, pending := (pending s)[i := rest]\<rparr>)
             else None
         | Put x # rest \<Rightarrow>
             Some (s\<lparr>pending := (pending s)[i := rest], printed := printed s @ [x]\<rparr>))
      else None)"

text \<open>
  A schedule names, step by step, the invocation that moves; every interleaving of the
  invocations is the run of some schedule.
\<close>

fun run :: "nat list \<Rightarrow> 'f sys \<Rightarrow> 'f sys option" where
  "run [] s = Some s"
| "run (i # sched) s = (case step i s of None \<Rightarrow> None | Some s' \<Rightarrow> run sched s')"

text \<open>The three kinds of invocation, each with the data it is called on.\<close>

datatype 'f call = ImgInfoCall ImgInfo | StreamCall Image | MotionCall "'f ImuData"

definition actions_of :: "int \<Rightarrow> int \<Rightarrow> 'f call \<Rightarrow> 'f action list" where
  "actions_of A G c =
     (case c of
        ImgInfoCall info \<Rightarrow> img_info_callback info
      | StreamCall img \<Rightarrow> stream_callback img
      | MotionCall imu \<Rightarrow> motion_callback A G imu)"

text \<open>All invocations about to begin, the mutex free, nothing printed.\<close>

definition start :: "int \<Rightarrow> int \<Rightarrow> 'f call list \<Rightarrow> 'f sys" where
  "start A G calls = \<lparr>holder = None, pending = map (actions_of A G) calls, printed = []\<rparr>"

subsection \<open>The run of \<open>main\<close>\<close>

text \<open>
  The answers of the SDK that do not change during a run. An image handle is a value of
  type \<open>'img\<close>, a \<open>cv::Mat\<close> a value of type \<open>'mat\<close>. \<open>To\<close> returns a shared pointer: \<open>None\<close> is
  the null pointer.
\<close>

record ('img, 'mat) sdk =
  SelectStreamRequest :: stream_request
  IsOpened :: bool
  Supports :: "Stream \<Rightarrow> bool"
  To :: "'img \<Rightarrow> ImageFormat \<Rightarrow> 'img option"
  ToMat :: "'img \<Rightarrow> 'mat"

text \<open>
  The answers of one loop iteration: the image pointer \<open>GetStreamData\<close> returns for each
  stream (\<open>None\<close> is the null pointer) and the \<open>int\<close> that \<open>cv::waitKey\<close> returns.
\<close>

record 'img tick =
  GetStreamData :: "Stream \<Rightarrow> 'img option"
  waitKey :: "32 word"

text \<open>The calls and writes of the main thread, in program order.\<close>

datatype 'mat event =
    EnableImageInfo bool
  | EnableMotionDatas nat
  | SetImgInfoCallback
  | SetStreamCallback Stream
  | SetMotionCallback
  | ConfigStreamRequest stream_request
  | Cout string
  | Cerr string
  | NamedWindow string
  | WaitForStreams
  | CounterUpdate
  | Fetch Stream
  | ConvertTo Stream ImageFormat
  | DrawSize Gravity
  | DrawStreamData Gravity
  | DrawInformation Gravity
  | Imshow string 'mat
  | WaitKey
  | Close

text \<open>
  How a piece of the loop body ends: control goes on, the loop is left by \<open>break\<close>, or the
  program calls a member of a null pointer (undefined behaviour; the model stops there).
\<close>

datatype flow = Continue | Break | NullDeref

text \<open>Sequencing: the second piece runs only when the first one lets control go on.\<close>

definition and_then :: "'e list \<times> flow \<Rightarrow> 'e list \<times> flow \<Rightarrow> 'e list \<times> flow" where
  "and_then a b = (case a of (ea, Continue) \<Rightarrow> (ea @ fst b, snd b) | (ea, f) \<Rightarrow> (ea, f))"

definition endl :: string where
  "endl = [CHR 0x0A]"

text \<open>Lines 146 to 156.\<close>

definition render_left :: "('img, 'mat) sdk \<Rightarrow> bool \<Rightarrow> 'img tick \<Rightarrow> 'mat event list \<times> flow" where
  "render_left api is_left_ok t =
     (if is_left_ok then
        (case GetStreamData t IMAGE_LEFT_COLOR of
           None \<Rightarrow> ([Fetch IMAGE_LEFT_COLOR], Continue)
         | Some img \<Rightarrow>
             (case To api img COLOR_BGR of
                None \<Rightarrow> ([Fetch IMAGE_LEFT_COLOR, ConvertTo IMAGE_LEFT_COLOR COLOR_BGR], NullDeref)
              | Some bgr \<Rightarrow>
                  ([Fetch IMAGE_LEFT_COLOR, ConvertTo IMAGE_LEFT_COLOR COLOR_BGR,
                    DrawSize TOP_LEFT, DrawStreamData TOP_RIGHT, DrawInformation BOTTOM_RIGHT,
                    Imshow ''left color'' (ToMat api bgr)], Continue)))
      else ([], Continue))"

text \<open>Lines 158 to 166.\<close>

definition render_right :: "('img, 'mat) sdk \<Rightarrow> bool \<Rightarrow> 'img tick \<Rightarrow> 'mat event list \<times> flow" where
  "render_right api is_right_ok t =
     (if is_right_ok then
        (case GetStreamData t IMAGE_RIGHT_COLOR of
           None \<Rightarrow> ([Fetch IMAGE_RIGHT_COLOR], Continue)
         | Some img \<Rightarrow>
             (case To api img COLOR_BGR of
                None \<Rightarrow> ([Fetch IMAGE_RIGHT_COLOR, ConvertTo IMAGE_RIGHT_COLOR COLOR_BGR], NullDeref)
              | Some bgr \<Rightarrow>
                  ([Fetch IMAGE_RIGHT_COLOR, ConvertTo IMAGE_RIGHT_COLOR COLOR_BGR,
                    DrawSize TOP_LEFT, DrawStreamData TOP_RIGHT,
                    Imshow ''right color'' (ToMat api bgr)], Continue)))
      else ([], Continue))"

text \<open>Lines 168 to 181.\<close>

definition render_depth ::
  "('img, 'mat) sdk \<Rightarrow> stream_request \<Rightarrow> bool \<Rightarrow> 'img tick \<Rightarrow> 'mat event list \<times> flow" where
  "render_depth api request is_depth_ok t =
     (if is_depth_ok then
        (case GetStreamData t IMAGE_DEPTH of
           None \<Rightarrow> ([Fetch IMAGE_DEPTH], Continue)
         | Some img \<Rightarrow>
             (if depth_mode request = DEPTH_COLORFUL then
                (case To api img DEPTH_BGR of
                   None \<Rightarrow> ([Fetch IMAGE_DEPTH, ConvertTo IMAGE_DEPTH DEPTH_BGR], NullDeref)
                 | Some bgr \<Rightarrow>
                     ([Fetch IMAGE_DEPTH, ConvertTo IMAGE_DEPTH DEPTH_BGR,
                       DrawSize TOP_LEFT, DrawStreamData TOP_RIGHT,
                       Imshow ''depth'' (ToMat api bgr)], Continue))
              else
                ([Fetch IMAGE_DEPTH, DrawSize TOP_LEFT, DrawStreamData TOP_RIGHT,
                  Imshow ''depth'' (ToMat api img)], Continue)))
      else ([], Continue))"

text \<open>
  Lines 183 to 186. The cast to \<open>char\<close> keeps the low eight bits of the \<open>int\<close>. The three
  codes compared with are below 128, so the test does not depend on whether \<open>char\<close> is
  signed: 27 is ESC, 113 is \<open>q\<close>, 81 is \<open>Q\<close>.
\<close>

definition poll_key :: "'img tick \<Rightarrow> 'mat event list \<times> flow" where
  "poll_key t =
     (let key = (ucast (waitKey t) :: 8 word)
      in ([WaitKey], if key = 27 \<or> key = 113 \<or> key = 81 then Break else Continue))"

text \<open>One pass through the body of the loop, lines 143 to 186.\<close>

definition iteration ::
  "('img, 'mat) sdk \<Rightarrow> stream_request \<Rightarrow> bool \<Rightarrow> bool \<Rightarrow> bool \<Rightarrow> 'img tick
     \<Rightarrow> 'mat event list \<times> flow" where
  "iteration api request is_left_ok is_right_ok is_depth_ok t =
     and_then ([WaitForStreams, CounterUpdate], Continue)
    (and_then (render_left api is_left_ok t)
    (and_then (render_right api is_right_ok t)
    (and_then (render_depth api request is_depth_ok t)
              (poll_key t))))"

text \<open>
  The loop \<open>for (;;)\<close> of lines 142 to 187 has no exit condition of its own. It runs on
  the answers of the iterations, one \<open>tick\<close> each; when the answers given are used up
  and no iteration has left the loop, the loop is still running, which the result
  \<open>Continue\<close> says.
\<close>

fun display_loop ::
  "('img, 'mat) sdk \<Rightarrow> stream_request \<Rightarrow> bool \<Rightarrow> bool \<Rightarrow> bool \<Rightarrow> 'img tick list
     \<Rightarrow> 'mat event list \<times> flow" where
  "display_loop api request l r d [] = ([], Continue)"
| "display_loop api request l r d (t # ts) =
     (case iteration api request l r d t of
        (ev, Continue) \<Rightarrow>
          (case display_loop api request l r d ts of (ev', f) \<Rightarrow> (ev @ ev', f))
      | (ev, f) \<Rightarrow> (ev, f))"

text \<open>How a run of \<open>main\<close> ends on the answers given.\<close>

datatype outcome = Returned int | Crashed | Pending

text \<open>Lines 63 to 119: enabling, the callback registrations, the configuration.\<close>

definition prologue :: "stream_request \<Rightarrow> 'mat event list" where
  "prologue request =
     [EnableImageInfo False, EnableMotionDatas 0, SetImgInfoCallback]
     @ map SetStreamCallback [IMAGE_LEFT_COLOR, IMAGE_RIGHT_COLOR, IMAGE_DEPTH]
     @ [SetMotionCallback, ConfigStreamRequest request, Cout endl]"

text \<open>Lines 133 to 138.\<close>

definition windows :: "bool \<Rightarrow> bool \<Rightarrow> bool \<Rightarrow> 'mat event list" where
  "windows is_left_ok is_right_ok is_depth_ok =
     (if is_left_ok then [NamedWindow ''left color''] else [])
     @ (if is_right_ok then [NamedWindow ''right color''] else [])
     @ (if is_depth_ok then [NamedWindow ''depth''] else [])"

text \<open>The whole of \<open>main\<close>, lines 28 to 192.\<close>

definition main :: "('img, 'mat) sdk \<Rightarrow> 'img tick list \<Rightarrow> 'mat event list \<times> outcome" where
  "main api ticks =
     (let request = configure (SelectStreamRequest api);
          start = prologue request
      in if \<not> IsOpened api then
           (start @ [Cerr (''Error: Open camera failed'' @ endl)], Returned 1)
         else
           (let opened = [Cout (''Open device success'' @ endl @ endl),
                          Cout (''Press ESC/Q on Windows to terminate'' @ endl)];
                is_left_ok = Supports api IMAGE_LEFT_COLOR;
                is_right_ok = Supports api IMAGE_RIGHT_COLOR;
                is_depth_ok = Supports api IMAGE_DEPTH;
                shown = windows is_left_ok is_right_ok is_depth_ok
            in (case display_loop api request is_left_ok is_right_ok is_depth_ok ticks of
                  (ev, Break) \<Rightarrow> (start @ opened @ shown @ ev @ [Close], Returned 0)
                | (ev, NullDeref) \<Rightarrow> (start @ opened @ shown @ ev, Crashed)
                | (ev, Continue) \<Rightarrow> (start @ opened @ shown @ ev, Pending))))"

subsection \<open>Vocabulary of the statements\<close>

text \<open>The \<open>char\<close> that line 183 stores in \<open>key\<close>.\<close>

definition key_read :: "'img tick \<Rightarrow> 8 word" where
  "key_read t = ucast (waitKey t)"

text \<open>The three quit keys, by their character codes.\<close>

definition is_quit_key :: "8 word \<Rightarrow> bool" where
  "is_quit_key key =
     (unat key = 27 \<or> unat key = of_char CHR ''q'' \<or> unat key = of_char CHR ''Q'')"

text \<open>The loop body with the arguments \<open>main\<close> runs it on.\<close>

definition body :: "('img, 'mat) sdk \<Rightarrow> 'img tick \<Rightarrow> 'mat event list \<times> flow" where
  "body api t =
     iteration api (configure (SelectStreamRequest api)) (Supports api IMAGE_LEFT_COLOR)
       (Supports api IMAGE_RIGHT_COLOR) (Supports api IMAGE_DEPTH) t"

text \<open>The display loop with the arguments \<open>main\<close> runs it on.\<close>

definition loop :: "('img, 'mat) sdk \<Rightarrow> 'img tick list \<Rightarrow> 'mat event list \<times> flow" where
  "loop api ticks =
     display_loop api (configure (SelectStreamRequest api)) (Supports api IMAGE_LEFT_COLOR)
       (Supports api IMAGE_RIGHT_COLOR) (Supports api IMAGE_DEPTH) ticks"

text \<open>A body that writes its items between taking and releasing the mutex.\<close>

definition critical :: "'f item list \<Rightarrow> 'f action list" where
  "critical xs = Lock # map Put xs @ [Unlock]"

text \<open>
  The console holds whole lines: the items of the invocations in \<open>order\<close>, each finished,
  one after the other, followed by \<open>part\<close>, the items that the invocation holding the
  mutex has written so far; every other invocation has not begun.
\<close>

definition lines_whole :: "'f item list list \<Rightarrow> 'f sys \<Rightarrow> nat list \<Rightarrow> 'f item list \<Rightarrow> bool" where
  "lines_whole xss s order part \<longleftrightarrow>
     length (pending s) = length xss \<and> distinct order \<and>
     (\<forall>i\<in>set order. i < length xss \<and> pending s ! i = []) \<and>
     printed s = concat (map ((!) xss) order) @ part \<and>
     (\<forall>i<length xss. i \<notin> set order \<longrightarrow> holder s \<noteq> Some i \<longrightarrow> pending s ! i = critical (xss ! i)) \<and>
     (holder s = None \<longrightarrow> part = []) \<and>
     (\<forall>h. holder s = Some h \<longrightarrow> h < length xss \<and> h \<notin> set order \<and>
        (\<exists>todo. xss ! h = part @ todo \<and> pending s ! h = map Put todo @ [Unlock]))"

text \<open>The schedule that runs invocation \<open>i\<close> to its end and then invocation \<open>j\<close>.\<close>

definition one_by_one :: "nat \<Rightarrow> nat \<Rightarrow> 'f item list \<Rightarrow> 'f item list \<Rightarrow> nat list" where
  "one_by_one i j xs ys = replicate (length xs + 2) i @ replicate (length ys + 2) j"

subsection \<open>Sample inputs\<close>

text \<open>
  A request with the defaults the comments of the configuration block name, a camera
  without a right colour stream, conversions that succeed and conversions that fail;
  image handles and matrices are numbers.
\<close>

definition sample_request :: stream_request where
  "sample_request =
     \<lparr>framerate = 10, color_mode = COLOR_RAW, depth_mode = DEPTH_COLORFUL,
      stream_mode = STREAM_640x480, state_ae = True, state_awb = True\<rparr>"

definition converts :: "nat \<Rightarrow> ImageFormat \<Rightarrow> nat option" where
  "converts img fmt = Some (img + 1000)"

definition conversion_fails :: "nat \<Rightarrow> ImageFormat \<Rightarrow> nat option" where
  "conversion_fails img fmt = None"

definition left_and_depth :: "Stream \<Rightarrow> bool" where
  "left_and_depth s = (s \<noteq> IMAGE_RIGHT_COLOR)"

definition mat_of :: "nat \<Rightarrow> nat" where
  "mat_of img = img"

definition sample_sdk :: "bool \<Rightarrow> (nat \<Rightarrow> ImageFormat \<Rightarrow> nat option) \<Rightarrow> (nat, nat) sdk" where
  "sample_sdk opened conv =
     \<lparr>SelectStreamRequest = sample_request, IsOpened = opened, Supports = left_and_depth,
      To = conv, ToMat = mat_of\<rparr>"

definition frame_7 :: "Stream \<Rightarrow> nat option" where
  "frame_7 s = Some 7"

definition no_frame :: "Stream \<Rightarrow> nat option" where
  "no_frame s = None"

definition sample_tick :: "(Stream \<Rightarrow> nat option) \<Rightarrow> 32 word \<Rightarrow> nat tick" where
  "sample_tick frames code = \<lparr>GetStreamData = frames, waitKey = code\<rparr>"

definition axis :: "nat \<Rightarrow> int" where
  "axis i = int i"

definition sample_imu :: "int \<Rightarrow> int ImuData" where
  "sample_imu tag =
     \<lparr>flag = tag, imu_timestamp = 100, accel = axis, gyro = axis, temperature = 25\<rparr>"

definition sample_info :: ImgInfo where
  "sample_info = \<lparr>frame_id = 5, timestamp = 100, exposure_time = 8\<rparr>"

section \<open>Properties\<close>

subsection \<open>The stream request\<close>

text \<open>
  C8. The request the program builds has framerate 30 and stream mode \<open>STREAM_2560x720\<close>,
  whatever request the SDK selected; 30 lies in the range \<open>[0,30]\<close> documented for that
  mode, which is the narrower of the two documented ranges, and so in the general range
  \<open>[0,60]\<close> as well. It is this request that \<open>main\<close> submits.
\<close>

theorem request_framerate_legal:
  "framerate (configure r) = 30 \<and>
   stream_mode (configure r) = STREAM_2560x720 \<and>
   framerate_max STREAM_2560x720 = 30 \<and>
   framerate_max m \<le> 60 \<and>
   framerate_legal (stream_mode (configure r)) (framerate (configure r)) \<and>
   0 \<le> framerate (configure r) \<and> framerate (configure r) \<le> 60 \<and>
   ConfigStreamRequest (configure (SelectStreamRequest api)) \<in> set (fst (main api ticks))"
proof -
  have "ConfigStreamRequest (configure (SelectStreamRequest api)) \<in> set (fst (main api ticks))"
    by (cases "display_loop api (configure (SelectStreamRequest api))
                 (Supports api IMAGE_LEFT_COLOR) (Supports api IMAGE_RIGHT_COLOR)
                 (Supports api IMAGE_DEPTH) ticks";
        cases "snd (display_loop api (configure (SelectStreamRequest api))
                 (Supports api IMAGE_LEFT_COLOR) (Supports api IMAGE_RIGHT_COLOR)
                 (Supports api IMAGE_DEPTH) ticks)")
       (simp_all add: main_def prologue_def Let_def)
  then show ?thesis
    by (simp add: configure_def framerate_legal_def framerate_max_def)
qed

subsection \<open>The callbacks\<close>

lemma console_Put: "console (map Put xs @ as) = xs @ console as"
  by (induction xs) auto

lemma guarded_Put: "guarded True (map Put xs @ as) = guarded True as"
  by (induction xs) auto

text \<open>
  Each callback takes the mutex first, releases it last and writes only in between.
\<close>

lemma callbacks_guarded:
  "guarded False (img_info_callback info)"
  "guarded False (stream_callback img)"
  "guarded False (motion_callback A G imu)"
  by (simp_all add: img_info_callback_def stream_callback_def motion_callback_def guarded_Put)

text \<open>
  C5. The motion callback sends a sample whose tag is the accelerometer flag through the
  accel format and a sample whose tag is the gyroscope flag through the gyro format (the
  two flags being different values), and no sample goes through both: the console never
  receives both the accel and the gyro heading for one sample.
\<close>

theorem motion_branches_exclusive:
  "(flag imu = A \<longrightarrow> console (motion_callback A G imu) = accel_line imu @ [Flush]) \<and>
   (flag imu = G \<and> A \<noteq> G \<longrightarrow> console (motion_callback A G imu) = gyro_line imu @ [Flush]) \<and>
   \<not> (Str ''[accel] stamp: '' \<in> set (console (motion_callback A G imu)) \<and>
      Str ''[gyro] stamp: '' \<in> set (console (motion_callback A G imu)))"
  by (auto simp: motion_callback_def console_Put accel_line_def gyro_line_def)

theorem motion_branches_exclusive_witness:
  "flag (sample_imu 1) = 1 \<and>
   console (motion_callback 1 2 (sample_imu 1)) =
     [Str ''[accel] stamp: '', Num 100, Str '', x: '', Val 0, Str '', y: '', Val 1,
      Str '', z: '', Val 2, Str '', temp: '', Val 25, Endl, Flush] \<and>
   flag (sample_imu 2) = 2 \<and> (1::int) \<noteq> 2 \<and>
   console (motion_callback 1 2 (sample_imu 2)) =
     [Str ''[gyro] stamp: '', Num 100, Str '', x: '', Val 0, Str '', y: '', Val 1,
      Str '', z: '', Val 2, Str '', temp: '', Val 25, Endl, Flush]"
  using motion_branches_exclusive [of "sample_imu 1" 1 2]
    motion_branches_exclusive [of "sample_imu 2" 1 2]
  by (simp add: sample_imu_def accel_line_def gyro_line_def axis_def)

text \<open>
  C10. A motion sample whose tag is neither the accelerometer flag nor the gyroscope flag
  produces no formatted output: the only thing the callback sends to the console is the
  flush of line 113.
\<close>

theorem motion_other_tag_silent:
  "flag imu \<noteq> A \<Longrightarrow> flag imu \<noteq> G \<Longrightarrow> console (motion_callback A G imu) = [Flush]"
  by (simp add: motion_callback_def)

theorem motion_other_tag_silent_witness:
  "flag (sample_imu 3) \<noteq> 1 \<and> flag (sample_imu 3) \<noteq> 2 \<and>
   console (motion_callback 1 2 (sample_imu 3)) = [Flush]"
  using motion_other_tag_silent [of "sample_imu 3" 1 2]
  by (simp add: sample_imu_def)

subsection \<open>The display loop\<close>

lemma snd_and_then:
  "snd (and_then a b) = (if snd a = Continue then snd b else snd a)"
  by (cases a; cases "snd a") (auto simp: and_then_def)

lemma fst_and_then:
  "fst (and_then a b) = (if snd a = Continue then fst a @ fst b else fst a)"
  by (cases a; cases "snd a") (auto simp: and_then_def)

lemma set_and_then:
  "set (fst (and_then a b)) \<subseteq> set (fst a) \<union> set (fst b)"
  by (simp add: fst_and_then)

lemma render_left_flow: "snd (render_left api ok t) \<noteq> Break"
  by (simp add: render_left_def split: option.splits)

lemma render_right_flow: "snd (render_right api ok t) \<noteq> Break"
  by (simp add: render_right_def split: option.splits)

lemma render_depth_flow: "snd (render_depth api rq ok t) \<noteq> Break"
  by (simp add: render_depth_def split: option.splits)

lemma is_quit_key_iff: "is_quit_key k \<longleftrightarrow> k = 27 \<or> k = 113 \<or> k = 81"
  by (simp add: is_quit_key_def word_unat_eq_iff)

lemma snd_poll_key: "snd (poll_key t) = (if is_quit_key (key_read t) then Break else Continue)"
  by (simp add: poll_key_def key_read_def is_quit_key_iff Let_def)

lemma iteration_Break_iff:
  "snd (iteration api rq l r d t) \<noteq> NullDeref \<Longrightarrow>
     snd (iteration api rq l r d t) = Break \<longleftrightarrow> is_quit_key (key_read t)"
  using render_left_flow [of api l t] render_right_flow [of api r t]
    render_depth_flow [of api rq d t]
  by (cases "snd (render_left api l t)"; cases "snd (render_right api r t)";
      cases "snd (render_depth api rq d t)")
     (simp_all add: iteration_def snd_and_then snd_poll_key)

lemma iteration_Continue_iff:
  "snd (iteration api rq l r d t) \<noteq> NullDeref \<Longrightarrow>
     snd (iteration api rq l r d t) = Continue \<longleftrightarrow> \<not> is_quit_key (key_read t)"
  using iteration_Break_iff [of api rq l r d t]
  by (cases "snd (iteration api rq l r d t)") simp_all

lemma display_loop_Cons:
  "display_loop api rq l r d (t # ts) =
     (if snd (iteration api rq l r d t) = Continue
      then (fst (iteration api rq l r d t) @ fst (display_loop api rq l r d ts),
            snd (display_loop api rq l r d ts))
      else iteration api rq l r d t)"
  by (cases "iteration api rq l r d t"; cases "snd (iteration api rq l r d t)")
     (auto split: prod.splits)

lemma display_loop_quit:
  "\<forall>u\<in>set ts. snd (iteration api rq l r d u) \<noteq> NullDeref \<Longrightarrow>
     snd (display_loop api rq l r d ts) = Break \<longleftrightarrow> (\<exists>u\<in>set ts. is_quit_key (key_read u))"
proof (induction ts)
  case Nil
  then show ?case by simp
next
  case (Cons t ts)
  then have t: "snd (iteration api rq l r d t) \<noteq> NullDeref" by simp
  from Cons have ih: "snd (display_loop api rq l r d ts) = Break \<longleftrightarrow>
      (\<exists>u\<in>set ts. is_quit_key (key_read u))" by simp
  show ?case
    using iteration_Break_iff [OF t] iteration_Continue_iff [OF t] ih
    by (auto simp: display_loop_Cons simp del: display_loop.simps)
qed

lemma display_loop_pending:
  "\<forall>u\<in>set ts. snd (iteration api rq l r d u) \<noteq> NullDeref \<Longrightarrow>
     snd (display_loop api rq l r d ts) = Continue \<longleftrightarrow> (\<forall>u\<in>set ts. \<not> is_quit_key (key_read u))"
proof (induction ts)
  case Nil
  then show ?case by simp
next
  case (Cons t ts)
  then have t: "snd (iteration api rq l r d t) \<noteq> NullDeref" by simp
  from Cons have ih: "snd (display_loop api rq l r d ts) = Continue \<longleftrightarrow>
      (\<forall>u\<in>set ts. \<not> is_quit_key (key_read u))" by simp
  show ?case
    using iteration_Break_iff [OF t] iteration_Continue_iff [OF t] ih
    by (auto simp: display_loop_Cons simp del: display_loop.simps)
qed

lemma display_loop_Break_D:
  "snd (display_loop api rq l r d ts) = Break \<Longrightarrow> \<exists>u\<in>set ts. is_quit_key (key_read u)"
proof (induction ts)
  case Nil
  then show ?case by simp
next
  case (Cons t ts)
  show ?case
  proof (cases "snd (iteration api rq l r d t) = Continue")
    case True
    with Cons show ?thesis
      by (simp add: display_loop_Cons del: display_loop.simps)
  next
    case False
    with Cons.prems have b: "snd (iteration api rq l r d t) = Break"
      by (simp add: display_loop_Cons del: display_loop.simps)
    then have "is_quit_key (key_read t)"
      using iteration_Break_iff [of api rq l r d t] by simp
    then show ?thesis by simp
  qed
qed

lemma display_loop_stops:
  "\<forall>u\<in>set pre. snd (iteration api rq l r d u) = Continue \<Longrightarrow>
   snd (iteration api rq l r d t) \<noteq> Continue \<Longrightarrow>
   display_loop api rq l r d (pre @ t # post) =
     (concat (map (\<lambda>u. fst (iteration api rq l r d u)) (pre @ [t])),
      snd (iteration api rq l r d t))"
proof (induction pre)
  case Nil
  then show ?case
    by (simp add: display_loop_Cons del: display_loop.simps)
next
  case (Cons a pre)
  then show ?case
    by (simp add: display_loop_Cons del: display_loop.simps)
qed

text \<open>
  C4. An iteration that does not fault leaves the loop exactly when the key it reads is
  ESC (27), \<open>q\<close> or \<open>Q\<close>. On answers without a fault the loop is left exactly when one of
  the keys read is a quit key and is still running exactly when none is; it stops right
  after the first iteration that reads a quit key, the answers after it unused.
\<close>

theorem quit_keys_end_loop:
  "(snd (iteration api rq l r d t) \<noteq> NullDeref \<longrightarrow>
      (snd (iteration api rq l r d t) = Break \<longleftrightarrow> is_quit_key (key_read t))) \<and>
   ((\<forall>u\<in>set ts. snd (iteration api rq l r d u) \<noteq> NullDeref) \<longrightarrow>
      (snd (display_loop api rq l r d ts) = Break \<longleftrightarrow> (\<exists>u\<in>set ts. is_quit_key (key_read u))) \<and>
      (snd (display_loop api rq l r d ts) = Continue \<longleftrightarrow>
         (\<forall>u\<in>set ts. \<not> is_quit_key (key_read u)))) \<and>
   ((\<forall>u\<in>set (pre @ [t]). snd (iteration api rq l r d u) \<noteq> NullDeref) \<and>
    (\<forall>u\<in>set pre. \<not> is_quit_key (key_read u)) \<and> is_quit_key (key_read t) \<longrightarrow>
      display_loop api rq l r d (pre @ t # post) =
        (concat (map (\<lambda>u. fst (iteration api rq l r d u)) (pre @ [t])), Break))"
proof (intro conjI impI)
  assume "snd (iteration api rq l r d t) \<noteq> NullDeref"
  then show "snd (iteration api rq l r d t) = Break \<longleftrightarrow> is_quit_key (key_read t)"
    by (rule iteration_Break_iff)
next
  assume "\<forall>u\<in>set ts. snd (iteration api rq l r d u) \<noteq> NullDeref"
  then show "snd (display_loop api rq l r d ts) = Break \<longleftrightarrow>
      (\<exists>u\<in>set ts. is_quit_key (key_read u))"
    by (rule display_loop_quit)
next
  assume "\<forall>u\<in>set ts. snd (iteration api rq l r d u) \<noteq> NullDeref"
  then show "snd (display_loop api rq l r d ts) = Continue \<longleftrightarrow>
      (\<forall>u\<in>set ts. \<not> is_quit_key (key_read u))"
    by (rule display_loop_pending)
next
  assume a: "(\<forall>u\<in>set (pre @ [t]). snd (iteration api rq l r d u) \<noteq> NullDeref) \<and>
    (\<forall>u\<in>set pre. \<not> is_quit_key (key_read u)) \<and> is_quit_key (key_read t)"
  then have pre: "\<forall>u\<in>set pre. snd (iteration api rq l r d u) = Continue"
    using iteration_Continue_iff [of api rq l r d] by simp
  from a have t: "snd (iteration api rq l r d t) = Break"
    using iteration_Break_iff [of api rq l r d t] by simp
  from display_loop_stops [OF pre, of t post] t
  show "display_loop api rq l r d (pre @ t # post) =
      (concat (map (\<lambda>u. fst (iteration api rq l r d u)) (pre @ [t])), Break)"
    by simp
qed

text \<open>Unfolding the sample inputs and the loop body.\<close>

lemmas sample_defs =
  sample_sdk_def sample_request_def sample_tick_def converts_def conversion_fails_def
  left_and_depth_def mat_of_def frame_7_def no_frame_def

lemmas run_defs =
  iteration_def render_left_def render_right_def render_depth_def poll_key_def and_then_def
  configure_def

theorem quit_keys_end_loop_witness:
  "snd (iteration (sample_sdk True converts) sample_request True False True
          (sample_tick no_frame 0)) \<noteq> NullDeref \<and>
   \<not> is_quit_key (key_read (sample_tick no_frame 0)) \<and>
   snd (iteration (sample_sdk True converts) sample_request True False True
          (sample_tick frame_7 27)) \<noteq> NullDeref \<and>
   is_quit_key (key_read (sample_tick frame_7 27)) \<and>
   snd (iteration (sample_sdk True converts) sample_request True False True
          (sample_tick frame_7 27)) = Break \<and>
   display_loop (sample_sdk True converts) sample_request True False True
     ([sample_tick no_frame 0] @ sample_tick frame_7 27 # [sample_tick frame_7 0]) =
     ([WaitForStreams, CounterUpdate, Fetch IMAGE_LEFT_COLOR, Fetch IMAGE_DEPTH, WaitKey,
       WaitForStreams, CounterUpdate,
       Fetch IMAGE_LEFT_COLOR, ConvertTo IMAGE_LEFT_COLOR COLOR_BGR, DrawSize TOP_LEFT,
       DrawStreamData TOP_RIGHT, DrawInformation BOTTOM_RIGHT, Imshow ''left color'' 1007,
       Fetch IMAGE_DEPTH, ConvertTo IMAGE_DEPTH DEPTH_BGR, DrawSize TOP_LEFT,
       DrawStreamData TOP_RIGHT, Imshow ''depth'' 1007, WaitKey], Break)"
  using quit_keys_end_loop [of "sample_sdk True converts" sample_request True False True
      "sample_tick frame_7 27" "[sample_tick no_frame 0, sample_tick frame_7 27]"
      "[sample_tick no_frame 0]" "[sample_tick frame_7 0]"]
  by (simp add: sample_defs run_defs is_quit_key_def key_read_def)

subsection \<open>main\<close>

lemma main_not_opened:
  "\<not> IsOpened api \<Longrightarrow>
     main api ticks =
       (prologue (configure (SelectStreamRequest api))
          @ [Cerr (''Error: Open camera failed'' @ endl)], Returned 1)"
  by (simp add: main_def Let_def)

lemma main_opened:
  assumes "IsOpened api"
  shows "fst (main api ticks) =
       (prologue (configure (SelectStreamRequest api))
          @ [Cout (''Open device success'' @ endl @ endl),
             Cout (''Press ESC/Q on Windows to terminate'' @ endl)]
          @ windows (Supports api IMAGE_LEFT_COLOR) (Supports api IMAGE_RIGHT_COLOR)
              (Supports api IMAGE_DEPTH))
       @ (fst (loop api ticks) @ (if snd (loop api ticks) = Break then [Close] else []))"
    and "snd (main api ticks) =
       (case snd (loop api ticks) of
          Break \<Rightarrow> Returned 0 | NullDeref \<Rightarrow> Crashed | Continue \<Rightarrow> Pending)"
  using assms
  by (cases "loop api ticks"; cases "snd (loop api ticks)";
      simp add: main_def loop_def Let_def)+

lemma loop_quit:
  "\<forall>u\<in>set ts. snd (body api u) \<noteq> NullDeref \<Longrightarrow>
     snd (loop api ts) = Break \<longleftrightarrow> (\<exists>u\<in>set ts. is_quit_key (key_read u))"
  unfolding body_def loop_def by (rule display_loop_quit)

lemma loop_Break_D:
  "snd (loop api ts) = Break \<Longrightarrow> \<exists>u\<in>set ts. is_quit_key (key_read u)"
  unfolding loop_def by (rule display_loop_Break_D)

text \<open>
  C2. When \<open>IsOpened\<close> answers false, \<open>main\<close> returns 1, the last thing it does is to
  write the error message to standard error, and it creates no window and shows no image.
\<close>

theorem open_failure_exits:
  "\<not> IsOpened api \<Longrightarrow>
     snd (main api ticks) = Returned 1 \<and>
     fst (main api ticks) =
       prologue (configure (SelectStreamRequest api))
         @ [Cerr (''Error: Open camera failed'' @ endl)] \<and>
     NamedWindow w \<notin> set (fst (main api ticks)) \<and>
     Imshow w m \<notin> set (fst (main api ticks))"
  by (simp add: main_not_opened prologue_def)

theorem open_failure_exits_witness:
  "\<not> IsOpened (sample_sdk False converts) \<and>
   main (sample_sdk False converts) [sample_tick frame_7 27] =
     ([EnableImageInfo False, EnableMotionDatas 0, SetImgInfoCallback,
       SetStreamCallback IMAGE_LEFT_COLOR, SetStreamCallback IMAGE_RIGHT_COLOR,
       SetStreamCallback IMAGE_DEPTH, SetMotionCallback,
       ConfigStreamRequest (sample_request\<lparr>framerate := 30, stream_mode := STREAM_2560x720\<rparr>),
       Cout endl, Cerr (''Error: Open camera failed'' @ endl)], Returned 1)"
  using open_failure_exits [of "sample_sdk False converts" "[sample_tick frame_7 27]"]
  by (simp add: sample_defs prologue_def configure_def prod_eq_iff)

text \<open>
  C3. \<open>main\<close> returns 1 when the open check fails; it returns 0 when the device is open
  and a quit key is read on answers without a fault; and whenever it returns, the code is
  1 after a failed open check or 0 after a quit key, nothing else.
\<close>

theorem exit_codes:
  "(\<not> IsOpened api \<longrightarrow> snd (main api ticks) = Returned 1) \<and>
   (IsOpened api \<and> (\<forall>u\<in>set ticks. snd (body api u) \<noteq> NullDeref) \<and>
      (\<exists>u\<in>set ticks. is_quit_key (key_read u)) \<longrightarrow> snd (main api ticks) = Returned 0) \<and>
   (snd (main api ticks) = Returned c \<longrightarrow>
      (c = 1 \<and> \<not> IsOpened api) \<or>
      (c = 0 \<and> IsOpened api \<and> (\<exists>u\<in>set ticks. is_quit_key (key_read u))))"
proof (intro conjI impI)
  assume "\<not> IsOpened api"
  then show "snd (main api ticks) = Returned 1"
    by (simp add: main_not_opened)
next
  assume a: "IsOpened api \<and> (\<forall>u\<in>set ticks. snd (body api u) \<noteq> NullDeref) \<and>
      (\<exists>u\<in>set ticks. is_quit_key (key_read u))"
  then have "snd (loop api ticks) = Break"
    using loop_quit [of ticks api] by simp
  with a show "snd (main api ticks) = Returned 0"
    by (simp add: main_opened)
next
  assume r: "snd (main api ticks) = Returned c"
  show "(c = 1 \<and> \<not> IsOpened api) \<or>
      (c = 0 \<and> IsOpened api \<and> (\<exists>u\<in>set ticks. is_quit_key (key_read u)))"
  proof (cases "IsOpened api")
    case False
    with r show ?thesis by (simp add: main_not_opened)
  next
    case True
    with r have "snd (loop api ticks) = Break \<and> c = 0"
      by (cases "snd (loop api ticks)") (simp_all add: main_opened)
    with True loop_Break_D [of api ticks] show ?thesis by simp
  qed
qed

theorem exit_codes_witness:
  "\<not> IsOpened (sample_sdk False converts) \<and>
   snd (main (sample_sdk False converts) [sample_tick no_frame 0, sample_tick frame_7 113])
     = Returned 1 \<and>
   IsOpened (sample_sdk True converts) \<and>
   snd (body (sample_sdk True converts) (sample_tick no_frame 0)) \<noteq> NullDeref \<and>
   snd (body (sample_sdk True converts) (sample_tick frame_7 113)) \<noteq> NullDeref \<and>
   is_quit_key (key_read (sample_tick frame_7 113)) \<and>
   snd (main (sample_sdk True converts) [sample_tick no_frame 0, sample_tick frame_7 113])
     = Returned 0"
  using exit_codes [of "sample_sdk False converts"
      "[sample_tick no_frame 0, sample_tick frame_7 113]" 1]
    exit_codes [of "sample_sdk True converts"
      "[sample_tick no_frame 0, sample_tick frame_7 113]" 0]
  by (simp add: sample_defs run_defs body_def is_quit_key_def key_read_def)

subsection \<open>The render steps\<close>

text \<open>
  C6. In an iteration that fetches a depth frame, the frame is converted to \<open>DEPTH_BGR\<close>
  exactly when the depth mode of the request is \<open>DEPTH_COLORFUL\<close>. In the other modes the
  frame itself is shown, with no conversion; in the colourful mode the converted frame is
  shown, the conversion coming before the display. The configuration block leaves the
  depth mode as the SDK selected it.
\<close>

theorem depth_converted_iff_colorful:
  "GetStreamData t IMAGE_DEPTH = Some img \<Longrightarrow>
     (ConvertTo IMAGE_DEPTH DEPTH_BGR \<in> set (fst (render_depth api request True t))
        \<longleftrightarrow> depth_mode request = DEPTH_COLORFUL) \<and>
     (depth_mode request \<noteq> DEPTH_COLORFUL \<longrightarrow>
        render_depth api request True t =
          ([Fetch IMAGE_DEPTH, DrawSize TOP_LEFT, DrawStreamData TOP_RIGHT,
            Imshow ''depth'' (ToMat api img)], Continue)) \<and>
     (depth_mode request = DEPTH_COLORFUL \<and> To api img DEPTH_BGR = Some bgr \<longrightarrow>
        render_depth api request True t =
          ([Fetch IMAGE_DEPTH, ConvertTo IMAGE_DEPTH DEPTH_BGR, DrawSize TOP_LEFT,
            DrawStreamData TOP_RIGHT, Imshow ''depth'' (ToMat api bgr)], Continue)) \<and>
     depth_mode (configure request) = depth_mode request"
  by (auto simp: render_depth_def configure_def split: option.splits)

theorem depth_converted_iff_colorful_witness:
  "GetStreamData (sample_tick frame_7 0) IMAGE_DEPTH = Some 7 \<and>
   depth_mode sample_request = DEPTH_COLORFUL \<and>
   To (sample_sdk True converts) 7 DEPTH_BGR = Some 1007 \<and>
   render_depth (sample_sdk True converts) sample_request True (sample_tick frame_7 0) =
     ([Fetch IMAGE_DEPTH, ConvertTo IMAGE_DEPTH DEPTH_BGR, DrawSize TOP_LEFT,
       DrawStreamData TOP_RIGHT, Imshow ''depth'' 1007], Continue) \<and>
   depth_mode (sample_request\<lparr>depth_mode := DEPTH_GRAY\<rparr>) \<noteq> DEPTH_COLORFUL \<and>
   render_depth (sample_sdk True converts) (sample_request\<lparr>depth_mode := DEPTH_GRAY\<rparr>) True
       (sample_tick frame_7 0) =
     ([Fetch IMAGE_DEPTH, DrawSize TOP_LEFT, DrawStreamData TOP_RIGHT, Imshow ''depth'' 7],
      Continue)"
  using depth_converted_iff_colorful [of "sample_tick frame_7 0" 7 "sample_sdk True converts"
      sample_request 1007]
    depth_converted_iff_colorful [of "sample_tick frame_7 0" 7 "sample_sdk True converts"
      "sample_request\<lparr>depth_mode := DEPTH_GRAY\<rparr>" 1007]
  by (simp add: sample_defs)

text \<open>
  C1, as stated, fails for a failed conversion: the pointer \<open>To\<close> returns is used unchecked
  (lines 149, 161 and 173), so on a null result the render step is not skipped; the run
  ends there, whatever key is pressed.
\<close>

theorem conversion_failure_not_skipped:
  "Supports (sample_sdk True conversion_fails) IMAGE_LEFT_COLOR \<and>
   GetStreamData (sample_tick frame_7 27) IMAGE_LEFT_COLOR = Some 7 \<and>
   To (sample_sdk True conversion_fails) 7 COLOR_BGR = None \<and>
   render_left (sample_sdk True conversion_fails) True (sample_tick frame_7 27) =
     ([Fetch IMAGE_LEFT_COLOR, ConvertTo IMAGE_LEFT_COLOR COLOR_BGR], NullDeref) \<and>
   snd (body (sample_sdk True conversion_fails) (sample_tick frame_7 27)) = NullDeref \<and>
   snd (main (sample_sdk True conversion_fails) [sample_tick frame_7 27]) = Crashed"
  by (simp add: sample_defs run_defs body_def main_def Let_def)

text \<open>
  C1, amended. A stream that is not supported and a frame that is missing are handled by
  the check before use: for an unsupported stream the render step does nothing at all,
  for a missing frame it is the one fetch and nothing more (no second fetch, no write to
  the console, no window shown), and control goes on to the next step. An iteration in
  which every stream is skipped consists of the wait, the fetches and the key poll.
  The result of a format conversion is used unchecked in all three streams: when the
  frame is there and the conversion returns the null pointer (for depth in the mode
  \<open>DEPTH_COLORFUL\<close>, the one mode that converts), the step is not skipped; after the fetch
  and the conversion the program calls a member of the null pointer.
\<close>

theorem missing_or_unsupported_skipped:
  "(\<not> l \<longrightarrow> render_left api l t = ([], Continue)) \<and>
   (\<not> r \<longrightarrow> render_right api r t = ([], Continue)) \<and>
   (\<not> d \<longrightarrow> render_depth api request d t = ([], Continue)) \<and>
   (l \<and> GetStreamData t IMAGE_LEFT_COLOR = None \<longrightarrow>
      render_left api l t = ([Fetch IMAGE_LEFT_COLOR], Continue)) \<and>
   (r \<and> GetStreamData t IMAGE_RIGHT_COLOR = None \<longrightarrow>
      render_right api r t = ([Fetch IMAGE_RIGHT_COLOR], Continue)) \<and>
   (d \<and> GetStreamData t IMAGE_DEPTH = None \<longrightarrow>
      render_depth api request d t = ([Fetch IMAGE_DEPTH], Continue)) \<and>
   ((\<not> l \<or> GetStreamData t IMAGE_LEFT_COLOR = None) \<and>
    (\<not> r \<or> GetStreamData t IMAGE_RIGHT_COLOR = None) \<and>
    (\<not> d \<or> GetStreamData t IMAGE_DEPTH = None) \<longrightarrow>
      iteration api request l r d t =
        ([WaitForStreams, CounterUpdate]
           @ (if l then [Fetch IMAGE_LEFT_COLOR] else [])
           @ (if r then [Fetch IMAGE_RIGHT_COLOR] else [])
           @ (if d then [Fetch IMAGE_DEPTH] else [])
           @ [WaitKey],
         if is_quit_key (key_read t) then Break else Continue)) \<and>
   (l \<and> GetStreamData t IMAGE_LEFT_COLOR = Some img_l \<and> To api img_l COLOR_BGR = None \<longrightarrow>
      render_left api l t =
        ([Fetch IMAGE_LEFT_COLOR, ConvertTo IMAGE_LEFT_COLOR COLOR_BGR], NullDeref)) \<and>
   (r \<and> GetStreamData t IMAGE_RIGHT_COLOR = Some img_r \<and> To api img_r COLOR_BGR = None \<longrightarrow>
      render_right api r t =
        ([Fetch IMAGE_RIGHT_COLOR, ConvertTo IMAGE_RIGHT_COLOR COLOR_BGR], NullDeref)) \<and>
   (d \<and> GetStreamData t IMAGE_DEPTH = Some img_d \<and> depth_mode request = DEPTH_COLORFUL \<and>
    To api img_d DEPTH_BGR = None \<longrightarrow>
      render_depth api request d t =
        ([Fetch IMAGE_DEPTH, ConvertTo IMAGE_DEPTH DEPTH_BGR], NullDeref))"
  by (auto simp: run_defs is_quit_key_iff key_read_def Let_def)

theorem missing_or_unsupported_skipped_witness:
  "\<not> Supports (sample_sdk True conversion_fails) IMAGE_RIGHT_COLOR \<and>
   render_right (sample_sdk True conversion_fails) False (sample_tick no_frame 0)
     = ([], Continue) \<and>
   GetStreamData (sample_tick no_frame 0) IMAGE_LEFT_COLOR = None \<and>
   render_left (sample_sdk True conversion_fails) True (sample_tick no_frame 0)
     = ([Fetch IMAGE_LEFT_COLOR], Continue) \<and>
   GetStreamData (sample_tick no_frame 0) IMAGE_DEPTH = None \<and>
   render_depth (sample_sdk True conversion_fails) sample_request True (sample_tick no_frame 0)
     = ([Fetch IMAGE_DEPTH], Continue) \<and>
   iteration (sample_sdk True conversion_fails) sample_request True False True
       (sample_tick no_frame 0)
     = ([WaitForStreams, CounterUpdate, Fetch IMAGE_LEFT_COLOR, Fetch IMAGE_DEPTH, WaitKey],
        Continue) \<and>
   GetStreamData (sample_tick frame_7 0) IMAGE_LEFT_COLOR = Some 7 \<and>
   GetStreamData (sample_tick frame_7 0) IMAGE_RIGHT_COLOR = Some 7 \<and>
   GetStreamData (sample_tick frame_7 0) IMAGE_DEPTH = Some 7 \<and>
   To (sample_sdk True conversion_fails) 7 COLOR_BGR = None \<and>
   To (sample_sdk True conversion_fails) 7 DEPTH_BGR = None \<and>
   depth_mode sample_request = DEPTH_COLORFUL \<and>
   render_left (sample_sdk True conversion_fails) True (sample_tick frame_7 0)
     = ([Fetch IMAGE_LEFT_COLOR, ConvertTo IMAGE_LEFT_COLOR COLOR_BGR], NullDeref) \<and>
   render_right (sample_sdk True conversion_fails) True (sample_tick frame_7 0)
     = ([Fetch IMAGE_RIGHT_COLOR, ConvertTo IMAGE_RIGHT_COLOR COLOR_BGR], NullDeref) \<and>
   render_depth (sample_sdk True conversion_fails) sample_request True (sample_tick frame_7 0)
     = ([Fetch IMAGE_DEPTH, ConvertTo IMAGE_DEPTH DEPTH_BGR], NullDeref)"
  using missing_or_unsupported_skipped [where l = True
      and api = "sample_sdk True conversion_fails" and t = "sample_tick no_frame 0"
      and r = False and d = True and request = sample_request]
    missing_or_unsupported_skipped [where l = True
      and api = "sample_sdk True conversion_fails" and t = "sample_tick frame_7 0"
      and r = True and d = True and request = sample_request
      and img_l = 7 and img_r = 7 and img_d = 7]
  by (simp add: sample_defs is_quit_key_def key_read_def)

subsection \<open>Windows\<close>

lemma render_left_events:
  "e \<in> set (fst (render_left api ok t)) \<Longrightarrow>
     (\<forall>w. e \<noteq> NamedWindow w) \<and> (\<forall>w m. e = Imshow w m \<longrightarrow> w = ''left color'' \<and> ok)"
  by (auto simp: render_left_def split: if_splits option.splits)

lemma render_right_events:
  "e \<in> set (fst (render_right api ok t)) \<Longrightarrow>
     (\<forall>w. e \<noteq> NamedWindow w) \<and> (\<forall>w m. e = Imshow w m \<longrightarrow> w = ''right color'' \<and> ok)"
  by (auto simp: render_right_def split: if_splits option.splits)

lemma render_depth_events:
  "e \<in> set (fst (render_depth api rq ok t)) \<Longrightarrow>
     (\<forall>w. e \<noteq> NamedWindow w) \<and> (\<forall>w m. e = Imshow w m \<longrightarrow> w = ''depth'' \<and> ok)"
  by (auto simp: render_depth_def split: if_splits option.splits)

lemma windows_iff:
  "NamedWindow w \<in> set (windows l r d) \<longleftrightarrow>
     w = ''left color'' \<and> l \<or> w = ''right color'' \<and> r \<or> w = ''depth'' \<and> d"
  by (auto simp: windows_def)

lemma iteration_events:
  assumes "e \<in> set (fst (iteration api rq l r d t))"
  shows "(\<forall>w. e \<noteq> NamedWindow w) \<and>
         (\<forall>w m. e = Imshow w m \<longrightarrow> NamedWindow w \<in> set (windows l r d))"
proof -
  have "set (fst (iteration api rq l r d t)) \<subseteq>
      {WaitForStreams, CounterUpdate, WaitKey} \<union> set (fst (render_left api l t)) \<union>
      set (fst (render_right api r t)) \<union> set (fst (render_depth api rq d t))"
    by (auto simp: iteration_def fst_and_then poll_key_def Let_def split: if_splits)
  with assms have "e \<in> {WaitForStreams, CounterUpdate, WaitKey} \<or>
      e \<in> set (fst (render_left api l t)) \<or> e \<in> set (fst (render_right api r t)) \<or>
      e \<in> set (fst (render_depth api rq d t))"
    by auto
  then show ?thesis
    using render_left_events [of e api l t] render_right_events [of e api r t]
      render_depth_events [of e api rq d t]
    by (auto simp: windows_iff)
qed

lemma display_loop_events:
  "e \<in> set (fst (display_loop api rq l r d ts)) \<Longrightarrow>
     (\<forall>w. e \<noteq> NamedWindow w) \<and>
     (\<forall>w m. e = Imshow w m \<longrightarrow> NamedWindow w \<in> set (windows l r d))"
proof (induction ts)
  case Nil
  then show ?case by simp
next
  case (Cons t ts)
  from Cons.prems have "e \<in> set (fst (iteration api rq l r d t)) \<or>
      e \<in> set (fst (display_loop api rq l r d ts))"
    by (auto simp: display_loop_Cons simp del: display_loop.simps split: if_splits)
  then show ?case
    using iteration_events [of e api rq l r d t] Cons.IH by blast
qed

text \<open>
  C7. After a successful open, \<open>main\<close> creates the window \<open>left color\<close>, \<open>right color\<close> or
  \<open>depth\<close> exactly when the API reports the left colour, right colour or depth stream as
  supported, and creates no window of another name. Each render step shows its image in
  the window of its own stream; and in the run every window is created before the first
  image is shown, each image going to a window that was created.
\<close>

theorem windows_follow_support:
  fixes api :: "('img, 'mat) sdk"
  shows "IsOpened api \<Longrightarrow>
     (NamedWindow ''left color'' \<in> set (fst (main api ticks))
        \<longleftrightarrow> Supports api IMAGE_LEFT_COLOR) \<and>
     (NamedWindow ''right color'' \<in> set (fst (main api ticks))
        \<longleftrightarrow> Supports api IMAGE_RIGHT_COLOR) \<and>
     (NamedWindow ''depth'' \<in> set (fst (main api ticks))
        \<longleftrightarrow> Supports api IMAGE_DEPTH) \<and>
     (NamedWindow w \<in> set (fst (main api ticks))
        \<longrightarrow> w = ''left color'' \<or> w = ''right color'' \<or> w = ''depth'') \<and>
     (Imshow w m \<in> set (fst (render_left api l t)) \<longrightarrow> w = ''left color'') \<and>
     (Imshow w m \<in> set (fst (render_right api r t)) \<longrightarrow> w = ''right color'') \<and>
     (Imshow w m \<in> set (fst (render_depth api request d t)) \<longrightarrow> w = ''depth'') \<and>
     (\<exists>before after. fst (main api ticks) = before @ after \<and>
        (\<forall>v n. Imshow v n \<notin> set before) \<and> (\<forall>v. NamedWindow v \<notin> set after) \<and>
        (\<forall>v n. Imshow v n \<in> set after \<longrightarrow> NamedWindow v \<in> set before))"
proof -
  assume opened: "IsOpened api"
  define win :: "'mat event list" where
    "win = windows (Supports api IMAGE_LEFT_COLOR) (Supports api IMAGE_RIGHT_COLOR)
             (Supports api IMAGE_DEPTH)"
  define before where
    "before = prologue (configure (SelectStreamRequest api))
          @ [Cout (''Open device success'' @ endl @ endl),
             Cout (''Press ESC/Q on Windows to terminate'' @ endl)]
          @ win"
  define after where
    "after = fst (loop api ticks) @ (if snd (loop api ticks) = Break then [Close] else [])"
  have split: "fst (main api ticks) = before @ after"
    unfolding before_def after_def win_def by (rule main_opened(1) [OF opened])
  have before_windows: "NamedWindow v \<in> set before \<longleftrightarrow> NamedWindow v \<in> set win" for v
    by (simp add: before_def prologue_def)
  have before_imshow: "Imshow v n \<notin> set before" for v n
    by (simp add: before_def win_def prologue_def windows_def)
  have in_after: "e \<in> set after \<Longrightarrow> e = Close \<or> e \<in> set (fst (loop api ticks))" for e
    by (auto simp: after_def split: if_splits)
  have after_windows: "NamedWindow v \<notin> set after" for v
  proof
    assume "NamedWindow v \<in> set after"
    with in_after have "NamedWindow v \<in> set (fst (loop api ticks))" by fastforce
    from display_loop_events [OF this [unfolded loop_def]] show False by simp
  qed
  have after_imshow: "NamedWindow v \<in> set before" if "Imshow v n \<in> set after" for v n
  proof -
    from that in_after have "Imshow v n \<in> set (fst (loop api ticks))" by fastforce
    from display_loop_events [OF this [unfolded loop_def]] have "NamedWindow v \<in> set win"
      by (simp add: win_def)
    then show ?thesis by (simp add: before_windows)
  qed
  have created: "NamedWindow v \<in> set (fst (main api ticks)) \<longleftrightarrow> NamedWindow v \<in> set win"
    for v
    by (simp add: split before_windows after_windows)
  have left: "NamedWindow ''left color'' \<in> set (fst (main api ticks))
        \<longleftrightarrow> Supports api IMAGE_LEFT_COLOR"
    by (simp add: created win_def windows_iff)
  have right: "NamedWindow ''right color'' \<in> set (fst (main api ticks))
        \<longleftrightarrow> Supports api IMAGE_RIGHT_COLOR"
    by (simp add: created win_def windows_iff)
  have depth: "NamedWindow ''depth'' \<in> set (fst (main api ticks))
        \<longleftrightarrow> Supports api IMAGE_DEPTH"
    by (simp add: created win_def windows_iff)
  have names: "NamedWindow w \<in> set (fst (main api ticks))
        \<longrightarrow> w = ''left color'' \<or> w = ''right color'' \<or> w = ''depth''"
    unfolding created win_def windows_iff by (intro impI) (elim disjE conjE, simp_all)
  have shown_left: "Imshow w m \<in> set (fst (render_left api l t)) \<longrightarrow> w = ''left color''"
    using render_left_events [of "Imshow w m" api l t] by simp
  have shown_right: "Imshow w m \<in> set (fst (render_right api r t)) \<longrightarrow> w = ''right color''"
    using render_right_events [of "Imshow w m" api r t] by simp
  have shown_depth:
    "Imshow w m \<in> set (fst (render_depth api request d t)) \<longrightarrow> w = ''depth''"
    using render_depth_events [of "Imshow w m" api request d t] by simp
  have order: "\<exists>before after. fst (main api ticks) = before @ after \<and>
        (\<forall>v n. Imshow v n \<notin> set before) \<and> (\<forall>v. NamedWindow v \<notin> set after) \<and>
        (\<forall>v n. Imshow v n \<in> set after \<longrightarrow> NamedWindow v \<in> set before)"
  proof (intro exI conjI allI impI)
    show "fst (main api ticks) = before @ after" by (rule split)
  qed (simp_all only: before_imshow after_windows after_imshow not_False_eq_True)
  from left right depth names shown_left shown_right shown_depth order
  show ?thesis by (intro conjI)
qed

theorem windows_follow_support_witness:
  "IsOpened (sample_sdk True converts) \<and>
   Supports (sample_sdk True converts) IMAGE_LEFT_COLOR \<and>
   \<not> Supports (sample_sdk True converts) IMAGE_RIGHT_COLOR \<and>
   Supports (sample_sdk True converts) IMAGE_DEPTH \<and>
   NamedWindow ''left color'' \<in> set (fst (main (sample_sdk True converts)
     [sample_tick frame_7 27])) \<and>
   NamedWindow ''right color'' \<notin> set (fst (main (sample_sdk True converts)
     [sample_tick frame_7 27])) \<and>
   NamedWindow ''depth'' \<in> set (fst (main (sample_sdk True converts)
     [sample_tick frame_7 27])) \<and>
   Imshow ''left color'' 1007 \<in> set (fst (render_left (sample_sdk True converts) True
     (sample_tick frame_7 27))) \<and>
   fst (main (sample_sdk True converts) [sample_tick frame_7 27]) =
     [EnableImageInfo False, EnableMotionDatas 0, SetImgInfoCallback,
      SetStreamCallback IMAGE_LEFT_COLOR, SetStreamCallback IMAGE_RIGHT_COLOR,
      SetStreamCallback IMAGE_DEPTH, SetMotionCallback,
      ConfigStreamRequest (sample_request\<lparr>framerate := 30, stream_mode := STREAM_2560x720\<rparr>),
      Cout endl, Cout (''Open device success'' @ endl @ endl),
      Cout (''Press ESC/Q on Windows to terminate'' @ endl),
      NamedWindow ''left color'', NamedWindow ''depth'',
      WaitForStreams, CounterUpdate,
      Fetch IMAGE_LEFT_COLOR, ConvertTo IMAGE_LEFT_COLOR COLOR_BGR, DrawSize TOP_LEFT,
      DrawStreamData TOP_RIGHT, DrawInformation BOTTOM_RIGHT, Imshow ''left color'' 1007,
      Fetch IMAGE_DEPTH, ConvertTo IMAGE_DEPTH DEPTH_BGR, DrawSize TOP_LEFT,
      DrawStreamData TOP_RIGHT, Imshow ''depth'' 1007, WaitKey, Close]"
  using windows_follow_support [where api = "sample_sdk True converts"
      and ticks = "[sample_tick frame_7 27]" and w = "''left color''" and m = 1007
      and l = True and t = "sample_tick frame_7 27"]
  by (simp add: sample_defs run_defs main_def prologue_def windows_def Let_def)

subsection \<open>Callbacks on several threads\<close>

lemma step_cases:
  assumes "step i s = Some s'"
  obtains
    (lock) rest where "i < length (pending s)" "pending s ! i = Lock # rest" "holder s = None"
      "s' = s\<lparr>holder := Some i, pending := (pending s)[i := rest]\<rparr>"
  | (unlock) rest where "i < length (pending s)" "pending s ! i = Unlock # rest"
      "holder s = Some i" "s' = s\<lparr>holder := None, pending := (pending s)[i := rest]\<rparr>"
  | (put) x rest where "i < length (pending s)" "pending s ! i = Put x # rest"
      "s' = s\<lparr>pending := (pending s)[i := rest], printed := printed s @ [x]\<rparr>"
  using assms
  by (auto simp: step_def split: if_splits list.splits action.splits)

lemma lines_whole_step:
  assumes inv: "lines_whole xss s order part" and st: "step i s = Some s'"
  shows "\<exists>order' part'. lines_whole xss s' order' part'"
proof -
  from inv have len: "length (pending s) = length xss"
    and dist: "distinct order"
    and fin: "\<forall>i\<in>set order. i < length xss \<and> pending s ! i = []"
    and out: "printed s = concat (map ((!) xss) order) @ part"
    and idle: "\<forall>i<length xss. i \<notin> set order \<longrightarrow> holder s \<noteq> Some i \<longrightarrow>
                 pending s ! i = critical (xss ! i)"
    and free: "holder s = None \<longrightarrow> part = []"
    and held: "\<forall>h. holder s = Some h \<longrightarrow> h < length xss \<and> h \<notin> set order \<and>
        (\<exists>todo. xss ! h = part @ todo \<and> pending s ! h = map Put todo @ [Unlock])"
    by (simp_all add: lines_whole_def)
  from st show ?thesis
  proof (cases rule: step_cases)
    case (lock rest)
    with fin have notin: "i \<notin> set order" by auto
    with idle lock len have "pending s ! i = critical (xss ! i)" by simp
    with lock have rest: "rest = map Put (xss ! i) @ [Unlock]" by (simp add: critical_def)
    have "lines_whole xss s' order []"
      unfolding lines_whole_def
      using lock len dist fin out idle free notin rest
      by (auto simp: nth_list_update)
    then show ?thesis by blast
  next
    case (unlock rest)
    with held obtain todo where h: "i < length xss" "i \<notin> set order"
      "xss ! i = part @ todo" "pending s ! i = map Put todo @ [Unlock]" by auto
    with unlock have todo: "todo = []" "rest = []" by (cases todo; simp)+
    have "lines_whole xss s' (order @ [i]) []"
      unfolding lines_whole_def
      using unlock len dist fin out idle h todo
      by (auto simp: nth_list_update)
    then show ?thesis by blast
  next
    case (put x rest)
    have "holder s = Some i"
    proof (rule ccontr)
      assume n: "holder s \<noteq> Some i"
      from put fin have "i \<notin> set order" by auto
      with idle put len n have "pending s ! i = critical (xss ! i)" by simp
      with put show False by (simp add: critical_def)
    qed
    with held obtain todo where h: "i < length xss" "i \<notin> set order"
      "xss ! i = part @ todo" "pending s ! i = map Put todo @ [Unlock]" by auto
    with put obtain todo' where todo: "todo = x # todo'" "rest = map Put todo' @ [Unlock]"
      by (cases todo) auto
    have "lines_whole xss s' order (part @ [x])"
      unfolding lines_whole_def
      using put len dist fin out idle h todo \<open>holder s = Some i\<close>
      by (auto simp: nth_list_update)
    then show ?thesis by blast
  qed
qed

lemma lines_whole_run:
  "lines_whole xss s order part \<Longrightarrow> run sched s = Some s' \<Longrightarrow>
     \<exists>order' part'. lines_whole xss s' order' part'"
proof (induction sched arbitrary: s order part)
  case Nil
  then show ?case by auto
next
  case (Cons i sched)
  from Cons.prems(2) obtain s1 where s1: "step i s = Some s1" "run sched s1 = Some s'"
    by (auto split: option.splits)
  from lines_whole_step [OF Cons.prems(1) s1(1)] obtain o1 p1
    where "lines_whole xss s1 o1 p1" by blast
  from Cons.IH [OF this s1(2)] show ?case .
qed

lemma console_critical: "console (critical xs) = xs"
  using console_Put [of xs "[Unlock]"] by (simp add: critical_def)

lemma actions_of_critical: "actions_of A G c = critical (console (actions_of A G c))"
  by (cases c)
     (simp_all add: actions_of_def img_info_callback_def stream_callback_def
        motion_callback_def critical_def console_Put)

lemma lines_whole_start:
  "lines_whole (map (\<lambda>c. console (actions_of A G c)) calls) (start A G calls) [] []"
  by (simp add: lines_whole_def start_def actions_of_critical [symmetric])

lemma lines_whole_finished:
  assumes inv: "lines_whole xss s order part" and allfin: "\<forall>p\<in>set (pending s). p = []"
  shows "holder s = None \<and> part = [] \<and> set order = {..<length xss}"
proof -
  from inv have len: "length (pending s) = length xss"
    and fin: "\<forall>i\<in>set order. i < length xss \<and> pending s ! i = []"
    and idle: "\<forall>i<length xss. i \<notin> set order \<longrightarrow> holder s \<noteq> Some i \<longrightarrow>
                 pending s ! i = critical (xss ! i)"
    and free: "holder s = None \<longrightarrow> part = []"
    and held: "\<forall>h. holder s = Some h \<longrightarrow> h < length xss \<and> h \<notin> set order \<and>
        (\<exists>todo. xss ! h = part @ todo \<and> pending s ! h = map Put todo @ [Unlock])"
    by (simp_all add: lines_whole_def)
  from allfin len have empty: "pending s ! i = []" if "i < length xss" for i
    using that by simp
  have none: "holder s = None"
  proof (cases "holder s")
    case None
    then show ?thesis .
  next
    case (Some h)
    with held empty [of h] show ?thesis by auto
  qed
  have "i \<in> set order" if "i < length xss" for i
  proof (rule ccontr)
    assume "i \<notin> set order"
    with idle that none have "pending s ! i = critical (xss ! i)" by simp
    with empty [OF that] show False by (simp add: critical_def)
  qed
  with fin have "set order = {..<length xss}" by auto
  with none free show ?thesis by simp
qed

lemma run_append:
  "run (a @ b) s = (case run a s of None \<Rightarrow> None | Some s' \<Rightarrow> run b s')"
  by (induction a arbitrary: s) (auto split: option.splits)

lemma run_puts:
  "i < length ps \<Longrightarrow> ps ! i = map Put xs @ [Unlock] \<Longrightarrow>
     run (replicate (Suc (length xs)) i) \<lparr>holder = Some i, pending = ps, printed = out\<rparr>
       = Some \<lparr>holder = None, pending = ps[i := []], printed = out @ xs\<rparr>"
proof (induction xs arbitrary: ps out)
  case Nil
  then show ?case by (simp add: step_def)
next
  case (Cons x xs)
  from Cons.prems have "run (replicate (Suc (length xs)) i)
      \<lparr>holder = Some i, pending = ps[i := map Put xs @ [Unlock]], printed = out @ [x]\<rparr>
    = Some \<lparr>holder = None, pending = (ps[i := map Put xs @ [Unlock]])[i := []],
         printed = (out @ [x]) @ xs\<rparr>"
    by (intro Cons.IH) simp_all
  with Cons.prems show ?case by (simp add: step_def)
qed

lemma run_critical:
  assumes "i < length ps" and "ps ! i = critical xs"
  shows "run (replicate (length xs + 2) i) \<lparr>holder = None, pending = ps, printed = out\<rparr>
       = Some \<lparr>holder = None, pending = ps[i := []], printed = out @ xs\<rparr>"
proof -
  have "run (replicate (Suc (length xs)) i)
      \<lparr>holder = Some i, pending = ps[i := map Put xs @ [Unlock]], printed = out\<rparr>
    = Some \<lparr>holder = None, pending = (ps[i := map Put xs @ [Unlock]])[i := []],
         printed = out @ xs\<rparr>"
    using assms by (intro run_puts) simp_all
  with assms show ?thesis by (simp add: step_def critical_def)
qed

lemma run_one_by_one:
  assumes "i < length ps" and "j < length ps" and "i \<noteq> j"
    and "ps ! i = critical xs" and "ps ! j = critical ys"
  shows "run (one_by_one i j xs ys) \<lparr>holder = None, pending = ps, printed = []\<rparr>
       = Some \<lparr>holder = None, pending = ps[i := [], j := []], printed = xs @ ys\<rparr>"
proof -
  have first: "run (replicate (length xs + 2) i) \<lparr>holder = None, pending = ps, printed = []\<rparr>
      = Some \<lparr>holder = None, pending = ps[i := []], printed = [] @ xs\<rparr>"
    using assms(1,4) by (rule run_critical)
  have second: "run (replicate (length ys + 2) j)
        \<lparr>holder = None, pending = ps[i := []], printed = [] @ xs\<rparr>
      = Some \<lparr>holder = None, pending = ps[i := [], j := []], printed = ([] @ xs) @ ys\<rparr>"
    using assms(2,3,5) by (intro run_critical) simp_all
  show ?thesis
    unfolding one_by_one_def run_append first option.case second by simp
qed

lemma either_order:
  "run (one_by_one 0 1 (console (actions_of A G a)) (console (actions_of A G b)))
       (start A G [a, b])
     = Some \<lparr>holder = None, pending = [[], []],
          printed = console (actions_of A G a) @ console (actions_of A G b)\<rparr>"
  "run (one_by_one 1 0 (console (actions_of A G b)) (console (actions_of A G a)))
       (start A G [a, b])
     = Some \<lparr>holder = None, pending = [[], []],
          printed = console (actions_of A G b) @ console (actions_of A G a)\<rparr>"
proof -
  let ?xa = "console (actions_of A G a)" and ?xb = "console (actions_of A G b)"
  let ?ps = "[actions_of A G a, actions_of A G b]"
  have a: "?ps ! 0 = critical ?xa" and b: "?ps ! 1 = critical ?xb"
    by (simp_all add: actions_of_critical [symmetric])
  have "run (one_by_one 0 1 ?xa ?xb) \<lparr>holder = None, pending = ?ps, printed = []\<rparr>
       = Some \<lparr>holder = None, pending = ?ps[0 := [], 1 := []], printed = ?xa @ ?xb\<rparr>"
    using _ _ _ a b by (rule run_one_by_one) simp_all
  then show "run (one_by_one 0 1 ?xa ?xb) (start A G [a, b])
     = Some \<lparr>holder = None, pending = [[], []], printed = ?xa @ ?xb\<rparr>"
    by (simp add: start_def)
  have "run (one_by_one 1 0 ?xb ?xa) \<lparr>holder = None, pending = ?ps, printed = []\<rparr>
       = Some \<lparr>holder = None, pending = ?ps[1 := [], 0 := []], printed = ?xb @ ?xa\<rparr>"
    using _ _ _ b a by (rule run_one_by_one) simp_all
  then show "run (one_by_one 1 0 ?xb ?xa) (start A G [a, b])
     = Some \<lparr>holder = None, pending = [[], []], printed = ?xb @ ?xa\<rparr>"
    by (simp add: start_def)
qed

text \<open>Without the mutex the items of two bodies do mix.\<close>

lemma unlocked_lines_mix:
  "run [0, 1, 0, 1]
     \<lparr>holder = None,
      pending = [map Put [Str ''a'', Endl], map Put [Str ''b'', Endl :: int item]],
      printed = []\<rparr>
   = Some \<lparr>holder = None, pending = [[], []],
        printed = [Str ''a'', Str ''b'', Endl, Endl]\<rparr>"
  by (simp add: step_def)

text \<open>
  C9. Every callback writes to the console only while it holds the mutex. So in every
  interleaving of any number of invocations the console holds whole lines: the complete
  output of some of the invocations, one after the other, then what the invocation
  holding the mutex has written so far, a beginning of its own output; once all
  invocations have ended, the console is the complete outputs of all of them in some
  order. The order is not fixed by anything else: for two invocations, whatever data
  they carry, both orders are outputs of complete schedules.
\<close>

theorem console_writes_serialised:
  "guarded False (actions_of A G c) \<and>
   (run sched (start A G calls) = Some s \<longrightarrow>
      (\<exists>order part.
         distinct order \<and> set order \<subseteq> {..<length calls} \<and>
         printed s = concat (map (\<lambda>i. console (actions_of A G (calls ! i))) order) @ part \<and>
         (holder s = None \<longrightarrow> part = []) \<and>
         (\<forall>h. holder s = Some h \<longrightarrow> h < length calls \<and> h \<notin> set order \<and>
            (\<exists>todo. console (actions_of A G (calls ! h)) = part @ todo)) \<and>
         ((\<forall>p\<in>set (pending s). p = []) \<longrightarrow>
            part = [] \<and> set order = {..<length calls}))) \<and>
   run (one_by_one 0 1 (console (actions_of A G a)) (console (actions_of A G b)))
       (start A G [a, b])
     = Some \<lparr>holder = None, pending = [[], []],
          printed = console (actions_of A G a) @ console (actions_of A G b)\<rparr> \<and>
   run (one_by_one 1 0 (console (actions_of A G b)) (console (actions_of A G a)))
       (start A G [a, b])
     = Some \<lparr>holder = None, pending = [[], []],
          printed = console (actions_of A G b) @ console (actions_of A G a)\<rparr>"
proof (intro conjI impI)
  show "guarded False (actions_of A G c)"
    by (cases c) (simp_all add: actions_of_def callbacks_guarded)
next
  assume r: "run sched (start A G calls) = Some s"
  let ?xss = "map (\<lambda>c. console (actions_of A G c)) calls"
  from lines_whole_run [OF lines_whole_start r] obtain order part
    where inv: "lines_whole ?xss s order part" by blast
  then have fin: "\<forall>i\<in>set order. i < length calls"
    and dist: "distinct order"
    and out: "printed s = concat (map ((!) ?xss) order) @ part"
    and free: "holder s = None \<longrightarrow> part = []"
    and held: "\<forall>h. holder s = Some h \<longrightarrow> h < length calls \<and> h \<notin> set order \<and>
        (\<exists>todo. ?xss ! h = part @ todo)"
    by (auto simp: lines_whole_def)
  from fin have "map ((!) ?xss) order = map (\<lambda>i. console (actions_of A G (calls ! i))) order"
    by (intro map_cong) simp_all
  with out have out': "printed s =
      concat (map (\<lambda>i. console (actions_of A G (calls ! i))) order) @ part"
    by simp
  from held have held': "\<forall>h. holder s = Some h \<longrightarrow> h < length calls \<and> h \<notin> set order \<and>
        (\<exists>todo. console (actions_of A G (calls ! h)) = part @ todo)"
    by auto
  have all: "(\<forall>p\<in>set (pending s). p = []) \<longrightarrow> part = [] \<and> set order = {..<length calls}"
    using lines_whole_finished [OF inv] by simp
  from fin have sub: "set order \<subseteq> {..<length calls}" by auto
  from dist sub out' free held' all
  have found: "distinct order \<and> set order \<subseteq> {..<length calls} \<and>
         printed s = concat (map (\<lambda>i. console (actions_of A G (calls ! i))) order) @ part \<and>
         (holder s = None \<longrightarrow> part = []) \<and>
         (\<forall>h. holder s = Some h \<longrightarrow> h < length calls \<and> h \<notin> set order \<and>
            (\<exists>todo. console (actions_of A G (calls ! h)) = part @ todo)) \<and>
         ((\<forall>p\<in>set (pending s). p = []) \<longrightarrow>
            part = [] \<and> set order = {..<length calls})"
    by (intro conjI)
  show "\<exists>order part.
         distinct order \<and> set order \<subseteq> {..<length calls} \<and>
         printed s = concat (map (\<lambda>i. console (actions_of A G (calls ! i))) order) @ part \<and>
         (holder s = None \<longrightarrow> part = []) \<and>
         (\<forall>h. holder s = Some h \<longrightarrow> h < length calls \<and> h \<notin> set order \<and>
            (\<exists>todo. console (actions_of A G (calls ! h)) = part @ todo)) \<and>
         ((\<forall>p\<in>set (pending s). p = []) \<longrightarrow>
            part = [] \<and> set order = {..<length calls})"
    by (rule exI [of _ order], rule exI [of _ part]) (rule found)
qed (rule either_order)+

theorem console_writes_serialised_witness:
  "run (one_by_one 0 1 (console (actions_of 1 2 (ImgInfoCall sample_info)))
          (console (actions_of 1 2 (MotionCall (sample_imu 3)))))
       (start 1 2 [ImgInfoCall sample_info, MotionCall (sample_imu 3)])
     = Some \<lparr>holder = None, pending = [[], []],
          printed = [Str ''  [img_info] fid: '', Num 5, Str '', stamp: '', Num 100,
                     Str '', expos: '', Num 8, Endl, Flush, Flush]\<rparr> \<and>
   set [[], [] :: int action list] = {[]} \<and>
   run [0, 1] (start 1 2 [ImgInfoCall sample_info, MotionCall (sample_imu 3)]) = None"
  using console_writes_serialised [where A = 1 and G = 2
      and c = "ImgInfoCall sample_info"
      and a = "ImgInfoCall sample_info" and b = "MotionCall (sample_imu 3)"
      and calls = "[ImgInfoCall sample_info, MotionCall (sample_imu 3)]"
      and sched = "one_by_one 0 1 (console (actions_of 1 2 (ImgInfoCall sample_info)))
          (console (actions_of 1 2 (MotionCall (sample_imu 3 :: int ImuData))))"
      and s = "\<lparr>holder = None, pending = [[], []],
          printed = [Str ''  [img_info] fid: '', Num 5, Str '', stamp: '', Num 100,
                     Str '', expos: '', Num 8, Endl, Flush, Flush]\<rparr>"]
  by (simp add: actions_of_def img_info_callback_def motion_callback_def sample_info_def
        sample_imu_def start_def step_def)

end
